theory Spec2Isabelle
  imports Complex_Main "HOL-Library.AList" "HOL-Library.Multiset"
    "HOL-Library.Char_ord" "HOL-Library.List_Lexorder"
begin

section \<open>Questify: a TF-IDF text search engine\<close>

text \<open>
  A shallow embedding of the indexing and ranking pipeline of Questify
  (\<^verbatim>\<open>utils/text_preprocessor.py\<close>, \<^verbatim>\<open>core/query_processor.py\<close>,
  \<^verbatim>\<open>core/indexer.py\<close>, \<^verbatim>\<open>core/similarity.py\<close>, \<^verbatim>\<open>core/ranker.py\<close>,
  \<^verbatim>\<open>storage/document_store.py\<close>, \<^verbatim>\<open>main/main.py\<close>).

  Conventions of the model:
  \<^item> a Python \<^verbatim>\<open>str\<close> is a \<^typ>\<open>string\<close>; one \<^typ>\<open>char\<close> is one code point
    in the range 0..255;
  \<^item> a Python \<^verbatim>\<open>float\<close> is a \<^typ>\<open>real\<close>: arithmetic is exact, rounding is not
    modelled, and of overflow only the exception that a float power raises in
    \<^verbatim>\<open>calculate_similarity\<close> is;
  \<^item> a \<^verbatim>\<open>dict\<close> whose iteration order is observed is an association list in
    insertion order (\<^const>\<open>AList.update\<close> keeps the position of an existing key and
    appends a new one, as assignment to a \<^verbatim>\<open>dict\<close> does); a \<^verbatim>\<open>dict\<close> that is only
    looked up is a map;
  \<^item> an exception is a value \<open>Inl e\<close> of a sum type.
\<close>

subsection \<open>Characters and the regular expressions of the source\<close>

definition backslash :: char where
  "backslash = CHR 0x5C"

definition code_point :: "char \<Rightarrow> nat" where
  "code_point c = of_char c"

text \<open>The character ranges \<^verbatim>\<open>a-z\<close>, \<^verbatim>\<open>A-Z\<close> and \<^verbatim>\<open>0-9\<close> of the patterns.\<close>

definition is_ascii_alnum :: "char \<Rightarrow> bool" where
  "is_ascii_alnum c =
     (let n = code_point c
      in (97 \<le> n \<and> n \<le> 122) \<or> (65 \<le> n \<and> n \<le> 90) \<or> (48 \<le> n \<and> n \<le> 57))"

text \<open>
  \<^verbatim>\<open>str.isspace\<close> on the code points below 256: TAB, LF, VT, FF, CR, the
  separators 0x1C..0x1F, the space, NEL (0x85) and the no-break space (0xA0).
\<close>

definition is_space :: "char \<Rightarrow> bool" where
  "is_space c =
     (let n = code_point c
      in (9 \<le> n \<and> n \<le> 13) \<or> (28 \<le> n \<and> n \<le> 32) \<or> n = 133 \<or> n = 160)"

text \<open>
  \<^verbatim>\<open>str.lower\<close>, one code point at a time: \<^verbatim>\<open>A-Z\<close> and the upper-case letters
  of Latin-1 (0xC0..0xDE without the multiplication sign 0xD7) move up by 32.
\<close>

definition lower_char :: "char \<Rightarrow> char" where
  "lower_char c =
     (let n = code_point c
      in if (65 \<le> n \<and> n \<le> 90) \<or> (192 \<le> n \<and> n \<le> 222 \<and> n \<noteq> 215)
         then char_of (n + 32) else c)"

definition lower :: "string \<Rightarrow> string" where
  "lower s = map lower_char s"

text \<open>\<^verbatim>\<open>str.strip()\<close>: leading and trailing whitespace removed.\<close>

definition strip :: "string \<Rightarrow> string" where
  "strip s = rev (dropWhile is_space (rev (dropWhile is_space s)))"

text \<open>
  \<^verbatim>\<open>str.split()\<close> without argument: the maximal runs of non-whitespace
  characters, in order. \<open>cur\<close> is the run being read.
\<close>

fun split_from :: "string \<Rightarrow> string \<Rightarrow> string list" where
  "split_from cur [] = (if cur = [] then [] else [cur])"
| "split_from cur (c # cs) =
     (if is_space c
      then (if cur = [] then split_from [] cs else cur # split_from [] cs)
      else split_from (cur @ [c]) cs)"

definition split :: "string \<Rightarrow> string list" where
  "split s = split_from [] s"

text \<open>
  The pattern of \<^verbatim>\<open>TextPreprocessor.preprocess\<close> is the raw string
  \<^verbatim>\<open>r'[^a-zA-Z0-9\\s]'\<close>. In a raw string the two backslashes stay two
  characters, and inside a character class \<^verbatim>\<open>\\\<close> is an escaped backslash
  followed by the letter \<^verbatim>\<open>s\<close>: the class excludes the ASCII letters and
  digits and the backslash, and nothing else. \<open>preprocess_keeps c\<close> holds
  when \<open>c\<close> does not match the pattern and so is left in place.
\<close>

definition preprocess_keeps :: "char \<Rightarrow> bool" where
  "preprocess_keeps c = (is_ascii_alnum c \<or> c = backslash)"

text \<open>
  The first pattern of \<^verbatim>\<open>QueryProcessor._clean_query\<close> is \<^verbatim>\<open>r'\\s+'\<close>: an
  escaped backslash followed by one or more letters \<^verbatim>\<open>s\<close>. \<^verbatim>\<open>re.sub\<close> replaces
  every leftmost, longest, non-overlapping match by one space.
\<close>

function sub_backslash_s :: "string \<Rightarrow> string" where
  "sub_backslash_s [] = []"
| "sub_backslash_s (c # cs) =
     (if c = backslash \<and> cs \<noteq> [] \<and> hd cs = CHR ''s''
      then CHR '' '' # sub_backslash_s (dropWhile (\<lambda>x. x = CHR ''s'') cs)
      else c # sub_backslash_s cs)"
  by pat_completeness auto
termination
  by (relation "measure length") (simp_all add: length_dropWhile_le le_imp_less_Suc)

text \<open>
  The second pattern is \<^verbatim>\<open>r'[^a-zA-Z0-9\\s\\-_.,!?]'\<close>. The class holds
  \<^verbatim>\<open>a-z\<close>, \<^verbatim>\<open>A-Z\<close>, \<^verbatim>\<open>0-9\<close>, an escaped backslash, the letter \<^verbatim>\<open>s\<close>, the
  range from an escaped backslash to the underscore (code points 0x5C..0x5F)
  and the four characters \<^verbatim>\<open>.,!?\<close>. Every other character, the space and the
  hyphen among them, matches the pattern and is deleted.
\<close>

definition clean_keeps :: "char \<Rightarrow> bool" where
  "clean_keeps c =
     (is_ascii_alnum c \<or> c = backslash \<or> c = CHR ''s''
      \<or> (code_point backslash \<le> code_point c \<and> code_point c \<le> code_point (CHR ''_''))
      \<or> c = CHR ''.'' \<or> c = CHR '','' \<or> c = CHR ''!'' \<or> c = CHR ''?'')"

subsection \<open>Text preprocessor (\<^verbatim>\<open>utils/text_preprocessor.py\<close>)\<close>

definition STOPWORDS :: "string list" where
  "STOPWORDS =
     [''a'', ''an'', ''and'', ''are'', ''as'', ''at'', ''be'', ''by'', ''for'', ''from'',
      ''has'', ''he'', ''in'', ''is'', ''it'', ''its'', ''of'', ''on'', ''that'', ''the'',
      ''to'', ''was'', ''will'', ''with'', ''the'', ''this'', ''but'', ''they'', ''have'',
      ''had'', ''what'', ''said'', ''each'', ''which'', ''their'', ''time'', ''if'',
      ''up'', ''out'', ''many'', ''then'', ''them'', ''these'', ''so'', ''some'', ''her'',
      ''would'', ''make'', ''like'', ''into'', ''him'', ''two'', ''more'', ''very'',
      ''what'', ''know'', ''just'', ''first'', ''get'', ''over'', ''think'', ''also'',
      ''your'', ''work'', ''life'', ''only'', ''can'', ''still'', ''should'', ''after'',
      ''being'', ''now'', ''made'', ''before'', ''here'', ''through'', ''when'', ''where'']"

record preprocessor =
  remove_stopwords :: bool
  min_token_length :: int

text \<open>The defaults of \<^verbatim>\<open>TextPreprocessor.__init__\<close> and of \<^verbatim>\<open>main/config.py\<close>.\<close>

definition default_preprocessor :: preprocessor where
  "default_preprocessor = \<lparr>remove_stopwords = True, min_token_length = 3\<rparr>"

text \<open>The filter loop of \<^verbatim>\<open>preprocess\<close>: a token is appended unless a \<^verbatim>\<open>continue\<close> skips it.\<close>

fun filter_tokens :: "preprocessor \<Rightarrow> string list \<Rightarrow> string list" where
  "filter_tokens pp [] = []"
| "filter_tokens pp (token # tokens) =
     (if int (length token) < min_token_length pp then filter_tokens pp tokens
      else if remove_stopwords pp \<and> token \<in> set STOPWORDS then filter_tokens pp tokens
      else token # filter_tokens pp tokens)"

definition preprocess :: "preprocessor \<Rightarrow> string \<Rightarrow> string list" where
  "preprocess pp text =
     (if text = [] then []
      else let text1 = lower text;
               text2 = map (\<lambda>c. if preprocess_keeps c then c else CHR '' '') text1;
               tokens = split text2
           in filter_tokens pp tokens)"

definition preprocess_query :: "preprocessor \<Rightarrow> string \<Rightarrow> string list" where
  "preprocess_query pp query = preprocess pp query"

subsection \<open>Query processor (\<^verbatim>\<open>core/query_processor.py\<close>)\<close>

definition clean_query :: "string \<Rightarrow> string" where
  "clean_query query =
     (let cleaned = sub_backslash_s (strip query)
      in filter clean_keeps cleaned)"

definition process_query :: "preprocessor \<Rightarrow> string \<Rightarrow> string list" where
  "process_query pp raw_query =
     (if raw_query = [] \<or> strip raw_query = [] then []
      else preprocess_query pp (clean_query raw_query))"

definition validate_query :: "string list \<Rightarrow> bool" where
  "validate_query query_terms =
     (if query_terms = [] then False
      else 0 < length (filter (\<lambda>term. strip term \<noteq> []) query_terms))"

subsection \<open>Exceptions\<close>

text \<open>
  The exceptions the modelled code can raise, each with the message Python gives it:
  a missing \<^verbatim>\<open>dict\<close> key, a division by zero, \<^verbatim>\<open>math.log\<close> or \<^verbatim>\<open>math.sqrt\<close>
  outside their domain, and a float power whose result is too large for a double.
\<close>

datatype error =
    KeyError string
  | ZeroDivisionError string
  | ValueError string
  | OverflowError string

text \<open>
  \<^verbatim>\<open>str(e)\<close>. For a \<^verbatim>\<open>KeyError\<close> it is the \<^verbatim>\<open>repr\<close> of the key, written here
  for keys that need no escaping.
\<close>

fun error_str :: "error \<Rightarrow> string" where
  "error_str (KeyError k) = [CHR 0x27] @ k @ [CHR 0x27]"
| "error_str (ZeroDivisionError m) = m"
| "error_str (ValueError m) = m"
| "error_str (OverflowError m) = m"

text \<open>
  \<^verbatim>\<open>score ** 2\<close> on a float raises \<^verbatim>\<open>OverflowError\<close> when the square does not fit
  a double, that is when it is at least \<open>2^1024 - 2^970\<close>, the least value that
  rounds above the largest double \<open>(2^53 - 1) * 2^971\<close>. \<open>range_error\<close> is the text
  of that exception.
\<close>

definition pow_overflows :: "real \<Rightarrow> bool" where
  "pow_overflows x = (2 ^ 1024 - 2 ^ 970 \<le> x ^ 2)"

definition range_error :: string where
  "range_error = ''(34, '' @ [CHR 0x27] @ ''Numerical result out of range'' @ [CHR 0x27] @ '')''"

subsection \<open>TF-IDF indexer (\<^verbatim>\<open>core/indexer.py\<close>)\<close>

type_synonym vector = "(string \<times> real) list"

record indexer =
  idx_preprocessor :: preprocessor
  documents :: "(string \<times> string list) list"
  vocabulary :: "(string \<times> nat) list"
  inverted_index :: "string \<rightharpoonup> string set"
  document_frequencies :: "string \<rightharpoonup> nat"
  document_norms :: "string \<rightharpoonup> real"
  tfidf_vectors :: "string \<rightharpoonup> vector"
  total_documents :: nat

definition new_indexer :: "preprocessor \<Rightarrow> indexer" where
  "new_indexer pp =
     \<lparr>idx_preprocessor = pp, documents = [], vocabulary = [],
      inverted_index = Map.empty, document_frequencies = Map.empty,
      document_norms = Map.empty, tfidf_vectors = Map.empty, total_documents = 0\<rparr>"

text \<open>
  \<^verbatim>\<open>self.inverted_index[term]\<close> on the \<^verbatim>\<open>defaultdict(set)\<close>: a missing key reads
  as the empty set.
\<close>

definition postings :: "indexer \<Rightarrow> string \<Rightarrow> string set" where
  "postings s term = (case inverted_index s term of None \<Rightarrow> {} | Some ds \<Rightarrow> ds)"

text \<open>
  The inner loop of \<^verbatim>\<open>add_documents\<close> over \<^verbatim>\<open>unique_terms = set(tokens)\<close>. Python
  does not specify the order in which a set is iterated; the loop is run here
  over \<^term>\<open>remdups tokens\<close>. The order decides only which id a new term gets.
\<close>

fun add_terms :: "string \<Rightarrow> string list \<Rightarrow> indexer \<Rightarrow> indexer" where
  "add_terms doc_id [] s = s"
| "add_terms doc_id (term # terms) s =
     add_terms doc_id terms
       (s\<lparr>vocabulary :=
            (if map_of (vocabulary s) term = None
             then AList.update term (length (vocabulary s)) (vocabulary s)
             else vocabulary s),
          inverted_index := (inverted_index s)(term \<mapsto> insert doc_id (postings s term))\<rparr>)"

fun add_each :: "(string \<times> string) list \<Rightarrow> indexer \<Rightarrow> indexer" where
  "add_each [] s = s"
| "add_each ((doc_id, text) # rest) s =
     (let tokens = preprocess (idx_preprocessor s) text;
          s1 = s\<lparr>documents := AList.update doc_id tokens (documents s)\<rparr>
      in add_each rest (add_terms doc_id (remdups tokens) s1))"

definition add_documents :: "(string \<times> string) list \<Rightarrow> indexer \<Rightarrow> indexer" where
  "add_documents docs s =
     (let s1 = add_each docs s in s1\<lparr>total_documents := length (documents s1)\<rparr>)"

text \<open>
  \<^verbatim>\<open>collections.Counter(tokens)\<close>: a \<^verbatim>\<open>dict\<close> from each element to the number of
  its occurrences, keys in order of first occurrence.
\<close>

definition counter_add :: "string \<Rightarrow> (string \<times> nat) list \<Rightarrow> (string \<times> nat) list" where
  "counter_add t c = AList.update t (case map_of c t of None \<Rightarrow> 1 | Some n \<Rightarrow> n + 1) c"

definition Counter :: "string list \<Rightarrow> (string \<times> nat) list" where
  "Counter tokens = fold counter_add tokens []"

text \<open>The first loop of \<^verbatim>\<open>build_index\<close>, over the terms of the vocabulary.\<close>

fun count_frequencies :: "(string \<times> nat) list \<Rightarrow> indexer \<Rightarrow> indexer" where
  "count_frequencies [] s = s"
| "count_frequencies ((term, term_id) # rest) s =
     count_frequencies rest
       (s\<lparr>inverted_index := (inverted_index s)(term \<mapsto> postings s term),
          document_frequencies := (document_frequencies s)(term \<mapsto> card (postings s term))\<rparr>)"

text \<open>
  The loop over \<^verbatim>\<open>term_counts.items()\<close>. \<open>vec\<close> is \<^verbatim>\<open>tfidf_vector\<close> so far. The
  three ways the body can raise are written out in the order Python meets them:
  \<^verbatim>\<open>count / doc_length\<close>, the lookup \<^verbatim>\<open>self.document_frequencies[term]\<close>, the
  division by it, and \<^verbatim>\<open>math.log\<close> of a value that is not positive.
\<close>

fun tfidf_entries ::
    "indexer \<Rightarrow> nat \<Rightarrow> (string \<times> nat) list \<Rightarrow> vector \<Rightarrow> error + vector" where
  "tfidf_entries s doc_length [] vec = Inr vec"
| "tfidf_entries s doc_length ((term, cnt) # rest) vec =
     (if doc_length = 0 then Inl (ZeroDivisionError ''division by zero'')
      else
        let tf = real cnt / real doc_length
        in case document_frequencies s term of
             None \<Rightarrow> Inl (KeyError term)
           | Some df \<Rightarrow>
               if df = 0 then Inl (ZeroDivisionError ''division by zero'')
               else
                 let ratio = real (total_documents s) / real df
                 in if ratio \<le> 0 then Inl (ValueError ''math domain error'')
                    else
                      let idf = ln ratio;
                          tfidf_score = tf * idf
                      in tfidf_entries s doc_length rest (AList.update term tfidf_score vec))"

text \<open>
  \<^verbatim>\<open>math.sqrt(sum(score**2 for score in tfidf_vector.values()))\<close>, in exact
  arithmetic.
\<close>

definition l2_norm :: "vector \<Rightarrow> real" where
  "l2_norm vec = sqrt (sum_list (map (\<lambda>(term, score). score ^ 2) vec))"

text \<open>
  The second loop of \<^verbatim>\<open>build_index\<close>, over \<^verbatim>\<open>self.documents.items()\<close>. An exception
  leaves the loop; the model then returns the exception alone.
\<close>

fun build_vectors :: "(string \<times> string list) list \<Rightarrow> indexer \<Rightarrow> error + indexer" where
  "build_vectors [] s = Inr s"
| "build_vectors ((doc_id, tokens) # rest) s =
     (case tfidf_entries s (length tokens) (Counter tokens) [] of
        Inl e \<Rightarrow> Inl e
      | Inr tfidf_vector \<Rightarrow>
          build_vectors rest
            (s\<lparr>tfidf_vectors := (tfidf_vectors s)(doc_id \<mapsto> tfidf_vector),
               document_norms := (document_norms s)(doc_id \<mapsto> l2_norm tfidf_vector)\<rparr>))"

definition build_index :: "indexer \<Rightarrow> error + indexer" where
  "build_index s =
     (let s1 = count_frequencies (vocabulary s) s in build_vectors (documents s1) s1)"

fun get_candidate_documents :: "indexer \<Rightarrow> string list \<Rightarrow> string set" where
  "get_candidate_documents s [] = {}"
| "get_candidate_documents s (term # terms) =
     (case inverted_index s term of
        None \<Rightarrow> get_candidate_documents s terms
      | Some ds \<Rightarrow> ds \<union> get_candidate_documents s terms)"

text \<open>The loop of \<^verbatim>\<open>get_query_vector\<close>; \<open>vec\<close> is \<^verbatim>\<open>query_vector\<close> so far.\<close>

fun query_entries ::
    "indexer \<Rightarrow> nat \<Rightarrow> (string \<times> nat) list \<Rightarrow> vector \<Rightarrow> error + vector" where
  "query_entries s query_length [] vec = Inr vec"
| "query_entries s query_length ((term, cnt) # rest) vec =
     (if map_of (vocabulary s) term = None then query_entries s query_length rest vec
      else if query_length = 0 then Inl (ZeroDivisionError ''division by zero'')
      else
        let tf = real cnt / real query_length
        in case document_frequencies s term of
             None \<Rightarrow> Inl (KeyError term)
           | Some df \<Rightarrow>
               if df = 0 then Inl (ZeroDivisionError ''division by zero'')
               else
                 let ratio = real (total_documents s) / real df
                 in if ratio \<le> 0 then Inl (ValueError ''math domain error'')
                    else query_entries s query_length rest
                           (AList.update term (tf * ln ratio) vec))"

definition get_query_vector :: "indexer \<Rightarrow> string list \<Rightarrow> error + vector" where
  "get_query_vector s query_terms =
     (if query_terms = [] then Inr []
      else query_entries s (length query_terms) (Counter query_terms) [])"

subsection \<open>Cosine similarity (\<^verbatim>\<open>core/similarity.py\<close>)\<close>

text \<open>The dot-product loop over \<^verbatim>\<open>query_vector.items()\<close>; \<open>acc\<close> is \<^verbatim>\<open>dot_product\<close> so far.\<close>

fun dot_product :: "vector \<Rightarrow> vector \<Rightarrow> real \<Rightarrow> real" where
  "dot_product [] document_vector acc = acc"
| "dot_product ((term, query_score) # rest) document_vector acc =
     (case map_of document_vector term of
        None \<Rightarrow> dot_product rest document_vector acc
      | Some document_score \<Rightarrow>
          dot_product rest document_vector (acc + query_score * document_score))"

text \<open>
  \<^verbatim>\<open>sum(score**2 for score in query_vector.values())\<close>: the squares are taken
  one after the other, and the first one that overflows raises. \<open>acc\<close> is the
  sum so far.
\<close>

fun sum_squares :: "vector \<Rightarrow> real \<Rightarrow> error + real" where
  "sum_squares [] acc = Inr acc"
| "sum_squares ((term, score) # rest) acc =
     (if pow_overflows score then Inl (OverflowError range_error)
      else sum_squares rest (acc + score ^ 2))"

text \<open>
  \<^verbatim>\<open>calculate_similarity\<close>. Of the float arithmetic the model keeps the
  exception of the power; the values themselves are exact reals, so the
  rounding of a double, and an addition or product that silently becomes
  \<^verbatim>\<open>inf\<close>, are not modelled.
\<close>

definition calculate_similarity :: "vector \<Rightarrow> vector \<Rightarrow> real \<Rightarrow> error + real" where
  "calculate_similarity query_vector document_vector document_norm =
     (if query_vector = [] \<or> document_vector = [] \<or> document_norm = 0 then Inr 0
      else
        let dot = dot_product query_vector document_vector 0
        in if dot = 0 then Inr 0
           else
             case sum_squares query_vector 0 of
               Inl e \<Rightarrow> Inl e
             | Inr squares \<Rightarrow>
                 if squares < 0 then Inl (ValueError ''math domain error'')
                 else
                   let query_norm = sqrt squares
                   in if query_norm = 0 then Inr 0
                      else if query_norm * document_norm = 0
                      then Inl (ZeroDivisionError ''float division by zero'')
                      else Inr (dot / (query_norm * document_norm)))"

text \<open>
  \<^verbatim>\<open>batch_calculate_similarities\<close>: the candidates in the order of the \<^verbatim>\<open>dict\<close>
  \<^verbatim>\<open>document_vectors\<close>; \<^verbatim>\<open>document_norms.get(doc_id, 0.0)\<close> for the norm.
\<close>

fun batch_calculate_similarities ::
    "vector \<Rightarrow> (string \<times> vector) list \<Rightarrow> (string \<times> real) list
       \<Rightarrow> error + (string \<times> real) list" where
  "batch_calculate_similarities query_vector [] norms = Inr []"
| "batch_calculate_similarities query_vector ((doc_id, doc_vector) # rest) norms =
     (let doc_norm = (case map_of norms doc_id of None \<Rightarrow> 0 | Some n \<Rightarrow> n)
      in case calculate_similarity query_vector doc_vector doc_norm of
           Inl e \<Rightarrow> Inl e
         | Inr similarity \<Rightarrow>
             (case batch_calculate_similarities query_vector rest norms of
                Inl e \<Rightarrow> Inl e
              | Inr results \<Rightarrow>
                  Inr (if similarity > 0 then (doc_id, similarity) # results else results)))"

subsection \<open>Document store (\<^verbatim>\<open>storage/document_store.py\<close>)\<close>

text \<open>
  The two in-memory dictionaries of the store. Of the metadata only the key set
  is modelled. The files on disk are the environment: \<open>fs_ok\<close> says whether the
  file operations of a call succeed.
\<close>

record document_store =
  store_documents :: "(string \<times> string) list"
  store_metadata :: "string set"

definition empty_store :: document_store where
  "empty_store = \<lparr>store_documents = [], store_metadata = {}\<rparr>"

definition store_add_document ::
    "bool \<Rightarrow> string \<Rightarrow> string \<Rightarrow> document_store \<Rightarrow> bool \<times> document_store" where
  "store_add_document fs_ok doc_id content_text st =
     (let st1 = st\<lparr>store_documents := AList.update doc_id content_text (store_documents st),
                   store_metadata := insert doc_id (store_metadata st)\<rparr>
      in (fs_ok, st1))"

definition get_document_content :: "document_store \<Rightarrow> string \<Rightarrow> string option" where
  "get_document_content st doc_id = map_of (store_documents st) doc_id"

definition get_all_documents :: "document_store \<Rightarrow> (string \<times> string) list" where
  "get_all_documents st = store_documents st"

text \<open>
  \<^verbatim>\<open>DocumentStore.remove_document\<close>. Every exception inside is caught and turned
  into the result \<^verbatim>\<open>False\<close>; what was deleted before it stays deleted.
\<close>

definition store_remove_document ::
    "bool \<Rightarrow> string \<Rightarrow> document_store \<Rightarrow> bool \<times> document_store" where
  "store_remove_document fs_ok doc_id st =
     (if map_of (store_documents st) doc_id = None then (False, st)
      else
        let st1 = st\<lparr>store_documents := AList.delete doc_id (store_documents st)\<rparr>
        in if doc_id \<notin> store_metadata st1 then (False, st1)
           else
             let st2 = st1\<lparr>store_metadata := store_metadata st1 - {doc_id}\<rparr>
             in if fs_ok then (True, st2) else (False, st2))"

subsection \<open>Result ranker (\<^verbatim>\<open>core/ranker.py\<close>)\<close>

record ranker =
  max_results :: int
  min_similarity_score :: real

definition default_ranker :: ranker where
  "default_ranker = \<lparr>max_results = 10, min_similarity_score = 1 / 100\<rparr>"

record search_hit =
  doc_id :: string
  similarity_score :: real
  rank :: nat
  content :: "string option"
  preview :: "string option"

record ranking =
  results :: "search_hit list"
  total_results :: nat
  total_candidates :: nat
  filtered_by_threshold :: nat
  returned_results :: nat

text \<open>\<^verbatim>\<open>xs[:m]\<close>: a negative \<open>m\<close> counts from the end of the list.\<close>

definition slice_to :: "int \<Rightarrow> 'a list \<Rightarrow> 'a list" where
  "slice_to m xs =
     (if 0 \<le> m then take (nat m) xs else take (nat (int (length xs) + m)) xs)"

text \<open>\<^verbatim>\<open>round(x, 4)\<close>: to the nearest multiple of \<open>1/10000\<close>, a tie to the even one.\<close>

definition round_half_even :: "real \<Rightarrow> int" where
  "round_half_even x =
     (let f = \<lfloor>x\<rfloor>; r = x - of_int f
      in if r < 1 / 2 then f else if 1 / 2 < r then f + 1 else if even f then f else f + 1)"

definition round4 :: "real \<Rightarrow> real" where
  "round4 x = of_int (round_half_even (x * 10000)) / 10000"

text \<open>\<^verbatim>\<open>preview.rfind(' ')\<close>: the index of the last space, or \<open>-1\<close>.\<close>

definition rfind_space :: "string \<Rightarrow> int" where
  "rfind_space s =
     (if CHR '' '' \<in> set s
      then int (length s) - 1 - int (length (takeWhile (\<lambda>c. c \<noteq> CHR '' '') (rev s)))
      else - 1)"

definition create_preview :: "string \<Rightarrow> string" where
  "create_preview content_text =
     (if content_text = [] then []
      else if length content_text \<le> 200 then content_text
      else
        let preview0 = take 200 content_text;
            last_space = rfind_space preview0;
            preview1 = (if 160 < last_space then take (nat last_space) preview0 else preview0)
        in preview1 @ ''...'')"

text \<open>
  \<^verbatim>\<open>sorted(filtered_results, key=lambda x: x[1], reverse=True)\<close>: a stable sort by
  descending score.
\<close>

definition sort_by_score_desc :: "(string \<times> real) list \<Rightarrow> (string \<times> real) list" where
  "sort_by_score_desc xs = sort_key (\<lambda>(d, score). - score) xs"

text \<open>The formatting loop; \<open>formatted\<close> is \<^verbatim>\<open>formatted_results\<close> so far.\<close>

fun format_results ::
    "document_store option \<Rightarrow> (string \<times> real) list \<Rightarrow> search_hit list \<Rightarrow> search_hit list" where
  "format_results store [] formatted = formatted"
| "format_results store ((d, score) # rest) formatted =
     (let found = (case store of
                     None \<Rightarrow> None
                   | Some st \<Rightarrow>
                       (case get_document_content st d of
                          None \<Rightarrow> None
                        | Some c \<Rightarrow> if c = [] then None else Some c));
          hit = \<lparr>doc_id = d, similarity_score = round4 score,
                 rank = length formatted + 1,
                 content = found, preview = map_option create_preview found\<rparr>
      in format_results store rest (formatted @ [hit]))"

definition rank_results ::
    "ranker \<Rightarrow> (string \<times> real) list \<Rightarrow> document_store option \<Rightarrow> ranking" where
  "rank_results rk similarities store =
     (let filtered_results = filter (\<lambda>(d, score). min_similarity_score rk \<le> score) similarities;
          sorted_results = sort_by_score_desc filtered_results;
          top_results = slice_to (max_results rk) sorted_results;
          formatted_results = format_results store top_results []
      in \<lparr>results = formatted_results,
          total_results = length formatted_results,
          total_candidates = length similarities,
          filtered_by_threshold = length similarities - length filtered_results,
          returned_results = length formatted_results\<rparr>)"

subsection \<open>The engine (\<^verbatim>\<open>main/main.py\<close>)\<close>

record engine =
  eng_preprocessor :: preprocessor
  eng_indexer :: indexer
  eng_ranker :: ranker
  eng_store :: document_store

text \<open>The engine over an empty storage directory, with the default configuration.\<close>

definition init_engine :: engine where
  "init_engine =
     \<lparr>eng_preprocessor = default_preprocessor,
      eng_indexer = new_indexer default_preprocessor,
      eng_ranker = default_ranker,
      eng_store = empty_store\<rparr>"

fun store_add_all :: "bool \<Rightarrow> (string \<times> string) list \<Rightarrow> document_store \<Rightarrow> document_store" where
  "store_add_all fs_ok [] st = st"
| "store_add_all fs_ok ((d, c) # rest) st =
     store_add_all fs_ok rest (snd (store_add_document fs_ok d c st))"

definition engine_add_documents :: "bool \<Rightarrow> (string \<times> string) list \<Rightarrow> engine \<Rightarrow> engine" where
  "engine_add_documents fs_ok docs e =
     e\<lparr>eng_store := store_add_all fs_ok docs (eng_store e),
       eng_indexer := add_documents docs (eng_indexer e)\<rparr>"

definition engine_build_index :: "engine \<Rightarrow> error + engine" where
  "engine_build_index e =
     (case build_index (eng_indexer e) of
        Inl err \<Rightarrow> Inl err
      | Inr idx \<Rightarrow> Inr (e\<lparr>eng_indexer := idx\<rparr>))"

text \<open>
  The \<^verbatim>\<open>query_info\<close> entry of the answer of \<^verbatim>\<open>search\<close>: \<^verbatim>\<open>{'error': ...}\<close>,
  \<^verbatim>\<open>{'message': ...}\<close>, or the dictionary of \<^verbatim>\<open>get_query_info\<close> (term count,
  number of unique terms, terms, validity).
\<close>

datatype query_info =
    QError string
  | QMessage string
  | QInfo nat nat "string list" bool

definition get_query_info :: "string list \<Rightarrow> query_info" where
  "get_query_info query_terms =
     QInfo (length query_terms) (card (set query_terms)) query_terms
       (validate_query query_terms)"

text \<open>
  The dictionary \<^verbatim>\<open>search\<close> returns, without the timing. The keys
  \<^verbatim>\<open>total_candidates\<close> and \<^verbatim>\<open>search_stats\<close> exist only in the answer that went
  through the ranker.
\<close>

record search_response =
  sr_results :: "search_hit list"
  sr_total_results :: nat
  sr_total_candidates :: "nat option"
  sr_search_stats :: "(nat \<times> nat) option"
  sr_query_info :: query_info

definition no_results :: "query_info \<Rightarrow> search_response" where
  "no_results qi =
     \<lparr>sr_results = [], sr_total_results = 0, sr_total_candidates = None,
      sr_search_stats = None, sr_query_info = qi\<rparr>"

text \<open>
  The comprehension \<^verbatim>\<open>{doc_id: table[doc_id] for doc_id in candidates}\<close>: a
  missing key raises \<^verbatim>\<open>KeyError\<close>. \<open>acc\<close> is the dictionary built so far.
\<close>

fun lookup_all ::
    "(string \<rightharpoonup> 'a) \<Rightarrow> string list \<Rightarrow> (string \<times> 'a) list \<Rightarrow> error + (string \<times> 'a) list" where
  "lookup_all table [] acc = Inr acc"
| "lookup_all table (d # ds) acc =
     (case table d of
        None \<Rightarrow> Inl (KeyError d)
      | Some v \<Rightarrow> lookup_all table ds (AList.update d v acc))"

text \<open>
  The body of the \<^verbatim>\<open>try\<close> block of \<^verbatim>\<open>search\<close>. \<open>set_order\<close> is the order in
  which Python iterates the set of candidates, which the language leaves open.
\<close>

definition search_body ::
    "(string set \<Rightarrow> string list) \<Rightarrow> engine \<Rightarrow> string \<Rightarrow> error + search_response" where
  "search_body set_order e query =
     (let query_terms = process_query (eng_preprocessor e) query
      in if \<not> validate_query query_terms
         then Inr (no_results (QError ''Invalid or empty query''))
         else
           case get_query_vector (eng_indexer e) query_terms of
             Inl err \<Rightarrow> Inl err
           | Inr query_vector \<Rightarrow>
               if query_vector = []
               then Inr (no_results (QError ''No matching terms found in vocabulary''))
               else
                 let candidates = get_candidate_documents (eng_indexer e) query_terms
                 in if candidates = {}
                    then Inr (no_results (QMessage ''No documents contain the query terms''))
                    else
                      (case lookup_all (tfidf_vectors (eng_indexer e))
                             (set_order candidates) [] of
                        Inl err \<Rightarrow> Inl err
                      | Inr candidate_vectors \<Rightarrow>
                          (case lookup_all (document_norms (eng_indexer e))
                                  (set_order candidates) [] of
                             Inl err \<Rightarrow> Inl err
                           | Inr candidate_norms \<Rightarrow>
                               (case batch_calculate_similarities query_vector
                                       candidate_vectors candidate_norms of
                                  Inl err \<Rightarrow> Inl err
                                | Inr similarities \<Rightarrow>
                                    let r = rank_results (eng_ranker e) similarities
                                              (Some (eng_store e))
                                    in Inr \<lparr>sr_results = results r,
                                            sr_total_results = total_results r,
                                            sr_total_candidates = Some (card candidates),
                                            sr_search_stats =
                                              Some (filtered_by_threshold r, returned_results r),
                                            sr_query_info = get_query_info query_terms\<rparr>))))"

text \<open>
  What a call gives back to its caller: a value, or an exception that leaves
  the function.
\<close>

datatype 'a outcome = Returned 'a | Raised error

text \<open>\<^verbatim>\<open>search\<close>: the \<^verbatim>\<open>try\<close> block with its handler \<^verbatim>\<open>except Exception as e\<close>.\<close>

definition search ::
    "(string set \<Rightarrow> string list) \<Rightarrow> engine \<Rightarrow> string \<Rightarrow> search_response outcome" where
  "search set_order e query =
     (case search_body set_order e query of
        Inr response \<Rightarrow> Returned response
      | Inl err \<Rightarrow> Returned (no_results (QError (''Search error: '' @ error_str err))))"

text \<open>
  \<^verbatim>\<open>QuestifySearchEngine.remove_document\<close>: on success the indexer is replaced by
  a new one, filled from the remaining documents of the store and built.
\<close>

definition remove_document :: "bool \<Rightarrow> engine \<Rightarrow> string \<Rightarrow> error + (bool \<times> engine)" where
  "remove_document fs_ok e d =
     (let (success, st) = store_remove_document fs_ok d (eng_store e);
          e1 = e\<lparr>eng_store := st\<rparr>
      in if success
         then
           let all_documents = get_all_documents st;
               e2 = e1\<lparr>eng_indexer := new_indexer (eng_preprocessor e1)\<rparr>
           in if all_documents \<noteq> []
              then (case engine_build_index
                           (e2\<lparr>eng_indexer := add_documents all_documents (eng_indexer e2)\<rparr>) of
                      Inl err \<Rightarrow> Inl err
                    | Inr e3 \<Rightarrow> Inr (success, e3))
              else Inr (success, e2)
         else Inr (success, e1))"

subsection \<open>Auxiliary notions for the proofs\<close>



text \<open>
  The states of the indexer that the program can reach: a new indexer, and what
  \<^const>\<open>add_documents\<close> and a \<^const>\<open>build_index\<close> that returns make of a
  reachable one.
\<close>

inductive reachable :: "indexer \<Rightarrow> bool" where
  reachable_new: "reachable (new_indexer pp)"
| reachable_add: "reachable s \<Longrightarrow> reachable (add_documents docs s)"
| reachable_build: "reachable s \<Longrightarrow> build_index s = Inr s' \<Longrightarrow> reachable s'"

text \<open>
  What every reachable state satisfies: the document ids are distinct, every
  token of a stored document is in the vocabulary and has the document among its
  postings, postings are finite sets of ingested document ids, and an index
  without documents has an empty vocabulary.
\<close>

definition index_inv :: "indexer \<Rightarrow> bool" where
  "index_inv s \<longleftrightarrow>
     distinct (map fst (documents s))
     \<and> (\<forall>(d, tokens) \<in> set (documents s). \<forall>t \<in> set tokens.
           t \<in> fst ` set (vocabulary s) \<and> d \<in> postings s t)
     \<and> (\<forall>t. finite (postings s t))
     \<and> (\<forall>t. postings s t \<subseteq> fst ` set (documents s))
     \<and> (documents s = [] \<longrightarrow> vocabulary s = [])"

text \<open>
  The weight the specification gives a term of a document, in its own words:
  the number of occurrences of the term divided by the number of tokens of the
  document, times the natural logarithm of the number of ingested documents
  divided by the number of documents in the term's entry of the inverted index.
  \<open>spec_vector\<close> lists the weights of the terms of a document, each term
  once, in order of first occurrence.
\<close>

definition spec_tfidf :: "indexer \<Rightarrow> string list \<Rightarrow> string \<Rightarrow> real" where
  "spec_tfidf s tokens t =
     real (count_list tokens t) / real (length tokens)
       * ln (real (length (documents s)) / real (card (postings s t)))"

definition spec_vector :: "indexer \<Rightarrow> string list \<Rightarrow> vector" where
  "spec_vector s tokens = map (\<lambda>t. (t, spec_tfidf s tokens t)) (rev (remdups (rev tokens)))"

text \<open>Concrete indexes used as examples below.\<close>

definition two_documents :: indexer where
  "two_documents =
     add_documents [(''d1'', ''is it a''), (''d2'', ''machine learning'')]
       (new_indexer default_preprocessor)"

definition reingested :: indexer where
  "reingested =
     add_documents [(''d1'', ''gamma'')]
       (add_documents [(''d1'', ''alpha beta'')] (new_indexer default_preprocessor))"

text \<open>The corpus of Scenario A of the specification, and an engine with two documents.\<close>

definition scenario_a :: "(string \<times> string) list" where
  "scenario_a =
     [(''d1'', ''machine learning algorithms''),
      (''d2'', ''deep learning neural networks''),
      (''d3'', ''cooking recipes'')]"

definition two_docs_engine :: engine where
  "two_docs_engine =
     engine_add_documents True [(''d1'', ''alpha beta''), (''d2'', ''beta gamma'')] init_engine"

section \<open>The text preprocessor and the query processor\<close>

text \<open>
  C9 (preprocess lowercases, replaces every character outside the alphanumerics
  by whitespace, splits, drops short tokens and stopwords). The code leaves the
  backslash in place: the text \<^verbatim>\<open>foo\bar\<close> stays one token, where the
  replacement the claim describes would give the two tokens \<^verbatim>\<open>foo\<close> and
  \<^verbatim>\<open>bar\<close>.
\<close>

theorem preprocess_keeps_backslash:
  "preprocess default_preprocessor (''foo'' @ [backslash] @ ''bar'')
     = [''foo'' @ [backslash] @ ''bar'']"
  by code_simp

lemma machine_learning_terms:
  "process_query default_preprocessor ''machine learning'' = [''machinelearning'']"
  by code_simp

text \<open>
  C2 (process_query collapses whitespace, keeps whitespace between the words and
  gives one term per word). The code deletes every space of the query before
  the preprocessor sees it: the two-word query \<^verbatim>\<open>machine learning\<close> gives the
  single term \<^verbatim>\<open>machinelearning\<close>.
\<close>

theorem process_query_joins_words:
  "process_query default_preprocessor ''machine learning'' = [''machinelearning'']"
  by (rule machine_learning_terms)

section \<open>The result ranker\<close>

lemma format_results_length:
  "length (format_results store xs acc) = length acc + length xs"
  by (induction xs arbitrary: acc) (auto simp: Let_def)

lemma format_results_ids:
  "map (\<lambda>h. (doc_id h, similarity_score h)) (format_results store xs acc)
     = map (\<lambda>h. (doc_id h, similarity_score h)) acc @ map (\<lambda>(d, s). (d, round4 s)) xs"
  by (induction xs arbitrary: acc) (auto simp: Let_def)

lemma format_results_rank:
  "map rank (format_results store xs acc)
     = map rank acc @ [length acc + 1 ..< length acc + length xs + 1]"
proof (induction xs arbitrary: acc)
  case Nil
  then show ?case by simp
next
  case (Cons x xs)
  obtain d s where x: "x = (d, s)" by (cases x)
  have "[length acc + 1 ..< length acc + length (x # xs) + 1]
          = (length acc + 1) # [length acc + 2 ..< length acc + length xs + 2]"
    by (simp add: upt_rec)
  then show ?case using Cons.IH x by (simp add: Let_def)
qed

lemma sort_by_score_desc_sorted:
  "sorted (map (\<lambda>(d, s). - s) (sort_by_score_desc xs))"
  unfolding sort_by_score_desc_def by (rule sorted_sort_key)

lemma sort_by_score_desc_length:
  "length (sort_by_score_desc xs) = length xs"
  unfolding sort_by_score_desc_def by simp

lemma sort_by_score_desc_mset:
  "mset (sort_by_score_desc xs) = mset xs"
  unfolding sort_by_score_desc_def by simp

text \<open>
  C4. With \<open>max_results\<close> not negative, \<^const>\<open>rank_results\<close> keeps exactly the
  candidates whose score is at least \<open>min_similarity_score\<close> (every candidate
  that is dropped is strictly below it), orders them by descending score (the
  ordered list is a permutation of the kept one), returns the first
  \<open>max_results\<close> of them with the score rounded to four decimals, so at most
  \<open>max_results\<close> entries and at most as many as were kept, and gives the entry
  at position \<open>i\<close> (counted from 1) the rank \<open>i\<close>.
\<close>

theorem rank_results_spec:
  assumes "0 \<le> max_results rk"
  shows "let kept = filter (\<lambda>(d, s). min_similarity_score rk \<le> s) sims;
             ordered = sort_by_score_desc kept;
             out = results (rank_results rk sims store)
         in (\<forall>x \<in> set sims. x \<in> set kept \<longleftrightarrow> min_similarity_score rk \<le> snd x)
          \<and> (\<forall>x \<in> set sims. x \<notin> set kept \<longrightarrow> snd x < min_similarity_score rk)
          \<and> mset ordered = mset kept
          \<and> sorted (map (\<lambda>(d, s). - s) ordered)
          \<and> map (\<lambda>h. (doc_id h, similarity_score h)) out
               = map (\<lambda>(d, s). (d, round4 s)) (take (nat (max_results rk)) ordered)
          \<and> int (length out) \<le> max_results rk
          \<and> length out \<le> length kept
          \<and> map rank out = [1 ..< length out + 1]"
  using assms
  by (auto simp: rank_results_def Let_def slice_to_def format_results_ids
        format_results_length format_results_rank sort_by_score_desc_sorted
        sort_by_score_desc_mset sort_by_score_desc_length)

theorem rank_results_spec_witness:
  "0 \<le> max_results default_ranker
   \<and> int (length (results (rank_results default_ranker
                 [(''d1'', 1 / 2), (''d2'', 1 / 200), (''d3'', 9 / 10)] None)))
        \<le> max_results default_ranker
   \<and> map rank (results (rank_results default_ranker
                 [(''d1'', 1 / 2), (''d2'', 1 / 200), (''d3'', 9 / 10)] None))
        = [1 ..< length (results (rank_results default_ranker
                 [(''d1'', 1 / 2), (''d2'', 1 / 200), (''d3'', 9 / 10)] None)) + 1]"
proof -
  have h: "0 \<le> max_results default_ranker"
    by (simp add: default_ranker_def)
  from rank_results_spec [OF h, of "[(''d1'', 1 / 2), (''d2'', 1 / 200), (''d3'', 9 / 10)]" None] h
  show ?thesis unfolding Let_def by blast
qed

section \<open>Cosine similarity\<close>












section \<open>The TF-IDF index\<close>

lemma update_fresh: "k \<notin> fst ` set al \<Longrightarrow> AList.update k v al = al @ [(k, v)]"
  by (induction al) auto

lemma set_update_cases:
  "(k', v') \<in> set (AList.update k v al) \<Longrightarrow> (k', v') = (k, v) \<or> (k', v') \<in> set al"
  by (induction al) (auto split: if_splits)

lemma keys_update: "fst ` set (AList.update k v al) = insert k (fst ` set al)"
  using dom_update [of k v al] by (simp add: dom_map_of_conv_image_fst)

lemma add_terms_fields:
  "documents (add_terms d ts s) = documents s"
  "total_documents (add_terms d ts s) = total_documents s"
  "idx_preprocessor (add_terms d ts s) = idx_preprocessor s"
  "document_frequencies (add_terms d ts s) = document_frequencies s"
  "document_norms (add_terms d ts s) = document_norms s"
  "tfidf_vectors (add_terms d ts s) = tfidf_vectors s"
  by (induction ts arbitrary: s) simp_all

lemma add_terms_postings:
  "postings (add_terms d ts s) t = (if t \<in> set ts then insert d (postings s t) else postings s t)"
  by (induction ts arbitrary: s) (auto simp: postings_def)

lemma add_terms_vocabulary:
  "fst ` set (vocabulary (add_terms d ts s)) = fst ` set (vocabulary s) \<union> set ts"
proof (induction ts arbitrary: s)
  case Nil
  then show ?case by simp
next
  case (Cons t ts)
  have "map_of (vocabulary s) t \<noteq> None \<Longrightarrow> t \<in> fst ` set (vocabulary s)"
    by (simp add: map_of_eq_None_iff)
  then show ?case by (auto simp: Cons.IH keys_update)
qed

lemma add_step_inv:
  assumes "index_inv s"
  shows "index_inv (add_terms d (remdups tokens)
                     (s\<lparr>documents := AList.update d tokens (documents s)\<rparr>))"
proof -
  let ?s1 = "s\<lparr>documents := AList.update d tokens (documents s)\<rparr>"
  let ?s2 = "add_terms d (remdups tokens) ?s1"
  have p1: "postings ?s1 t = postings s t" for t by (simp add: postings_def)
  have docs: "documents ?s2 = AList.update d tokens (documents s)"
    by (simp add: add_terms_fields)
  have post: "postings ?s2 t = (if t \<in> set tokens then insert d (postings s t) else postings s t)" for t
    by (simp add: add_terms_postings p1)
  have voc: "fst ` set (vocabulary ?s2) = fst ` set (vocabulary s) \<union> set tokens"
    by (simp add: add_terms_vocabulary)
  have "distinct (map fst (documents ?s2))"
    using assms by (simp add: docs index_inv_def distinct_update)
  moreover have "t \<in> fst ` set (vocabulary ?s2) \<and> d' \<in> postings ?s2 t"
    if "(d', toks') \<in> set (documents ?s2)" "t \<in> set toks'" for d' toks' t
  proof -
    from that(1) consider "(d', toks') = (d, tokens)" | "(d', toks') \<in> set (documents s)"
      unfolding docs by (auto dest: set_update_cases)
    then show ?thesis
    proof cases
      case 1
      then show ?thesis using that(2) by (simp add: voc post)
    next
      case 2
      then have "t \<in> fst ` set (vocabulary s) \<and> d' \<in> postings s t"
        using assms that(2) unfolding index_inv_def by blast
      then show ?thesis by (simp add: voc post)
    qed
  qed
  moreover have "finite (postings ?s2 t)" for t
    using assms by (simp add: post index_inv_def)
  moreover have "postings ?s2 t \<subseteq> fst ` set (documents ?s2)" for t
    using assms unfolding index_inv_def docs keys_update post by auto
  moreover have "documents ?s2 \<noteq> []"
    by (simp add: docs)
  ultimately show ?thesis unfolding index_inv_def by blast
qed

lemma add_each_inv: "index_inv s \<Longrightarrow> index_inv (add_each docs s)"
proof (induction docs arbitrary: s)
  case Nil
  then show ?case by simp
next
  case (Cons p docs)
  obtain d body where p: "p = (d, body)" by (cases p)
  show ?case using Cons.IH [OF add_step_inv [OF Cons.prems]] p by (simp add: Let_def)
qed

lemma index_inv_total [simp]: "index_inv (s\<lparr>total_documents := n\<rparr>) = index_inv s"
  by (simp add: index_inv_def postings_def)

lemma add_documents_inv: "index_inv s \<Longrightarrow> index_inv (add_documents docs s)"
  by (simp add: add_documents_def Let_def add_each_inv)

lemma add_documents_total:
  "total_documents (add_documents docs s) = length (documents (add_documents docs s))"
  by (simp add: add_documents_def Let_def)

lemma new_indexer_inv: "index_inv (new_indexer pp)"
  by (simp add: index_inv_def new_indexer_def postings_def)

lemma count_frequencies_fields:
  "documents (count_frequencies vs s) = documents s"
  "vocabulary (count_frequencies vs s) = vocabulary s"
  "total_documents (count_frequencies vs s) = total_documents s"
  "idx_preprocessor (count_frequencies vs s) = idx_preprocessor s"
  "document_norms (count_frequencies vs s) = document_norms s"
  "tfidf_vectors (count_frequencies vs s) = tfidf_vectors s"
  by (induction vs s rule: count_frequencies.induct) simp_all

lemma count_frequencies_postings:
  "postings (count_frequencies vs s) t = postings s t"
  by (induction vs s rule: count_frequencies.induct) (simp_all add: postings_def)

lemma count_frequencies_df:
  "document_frequencies (count_frequencies vs s) t
     = (if t \<in> fst ` set vs then Some (card (postings s t)) else document_frequencies s t)"
proof (induction vs s rule: count_frequencies.induct)
  case (1 s)
  then show ?case by simp
next
  case (2 tm term_id rest s)
  let ?s1 = "s\<lparr>inverted_index := (inverted_index s)(tm \<mapsto> postings s tm),
                document_frequencies := (document_frequencies s)(tm \<mapsto> card (postings s tm))\<rparr>"
  have "postings ?s1 t = postings s t" by (simp add: postings_def)
  then show ?case using "2.IH" by auto
qed

lemma Counter_snoc: "Counter (xs @ [x]) = counter_add x (Counter xs)"
  by (simp add: Counter_def)

lemma update_map_present:
  "k \<in> set ks \<Longrightarrow> distinct ks \<Longrightarrow>
     AList.update k v (map (\<lambda>t. (t, f t)) ks) = map (\<lambda>t. (t, (f(k := v)) t)) ks"
  by (induction ks) auto

lemma map_of_graph: "map_of (map (\<lambda>t. (t, f t)) ks) k = (if k \<in> set ks then Some (f k) else None)"
  by (induction ks) auto

lemma Counter_eq:
  "Counter tokens = map (\<lambda>t. (t, count_list tokens t)) (rev (remdups (rev tokens)))"
proof (induction tokens rule: rev_induct)
  case Nil
  then show ?case by (simp add: Counter_def)
next
  case (snoc x xs)
  let ?ks = "rev (remdups (rev xs))"
  have ks: "set ?ks = set xs" by simp
  show ?case
  proof (cases "x \<in> set xs")
    case True
    then have "counter_add x (Counter xs)
                 = map (\<lambda>t. (t, ((count_list xs)(x := count_list xs x + 1)) t)) ?ks"
      by (simp add: counter_add_def snoc.IH map_of_graph update_map_present)
    also have "\<dots> = map (\<lambda>t. (t, count_list (xs @ [x]) t)) ?ks"
      by (rule map_cong) auto
    finally show ?thesis using True by (simp add: Counter_snoc)
  next
    case False
    then have "counter_add x (Counter xs) = map (\<lambda>t. (t, count_list xs t)) ?ks @ [(x, 1)]"
      by (simp add: counter_add_def snoc.IH map_of_graph update_fresh image_image)
    also have "map (\<lambda>t. (t, count_list xs t)) ?ks = map (\<lambda>t. (t, count_list (xs @ [x]) t)) ?ks"
      by (rule map_cong) (use False in auto)
    finally show ?thesis using False by (simp add: Counter_snoc)
  qed
qed

lemma tfidf_entries_ok:
  assumes "n \<noteq> 0" "distinct (map fst cs)" "fst ` set cs \<inter> fst ` set vec = {}"
    and "\<forall>(t, c) \<in> set cs. \<exists>k. document_frequencies s t = Some k \<and> k \<noteq> 0"
    and "total_documents s \<noteq> 0"
  shows "tfidf_entries s n cs vec
           = Inr (vec @ map (\<lambda>(t, c). (t, real c / real n
                    * ln (real (total_documents s) / real (the (document_frequencies s t))))) cs)"
  using assms
proof (induction cs arbitrary: vec)
  case Nil
  then show ?case by simp
next
  case (Cons p cs)
  obtain t c where p: "p = (t, c)" by (cases p)
  from Cons.prems p obtain k where k: "document_frequencies s t = Some k" "k \<noteq> 0"
    by auto
  have pos: "\<not> real (total_documents s) / real k \<le> 0"
    using k Cons.prems(5) by (simp add: not_le)
  have fresh: "t \<notin> fst ` set vec" using Cons.prems(3) p by auto
  let ?v = "real c / real n * ln (real (total_documents s) / real k)"
  have disj: "fst ` set cs \<inter> fst ` set (vec @ [(t, ?v)]) = {}"
    using Cons.prems(2,3) p by auto
  have "tfidf_entries s n (p # cs) vec = tfidf_entries s n cs (vec @ [(t, ?v)])"
    using Cons.prems(1) k pos p by (simp add: Let_def update_fresh [OF fresh])
  also have "\<dots> = Inr ((vec @ [(t, ?v)]) @ map (\<lambda>(t, c). (t, real c / real n
                    * ln (real (total_documents s) / real (the (document_frequencies s t))))) cs)"
    using Cons.prems by (intro Cons.IH disj) auto
  finally show ?case using p k by simp
qed

lemma tfidf_entries_cong:
  "document_frequencies s = document_frequencies s' \<Longrightarrow> total_documents s = total_documents s'
     \<Longrightarrow> tfidf_entries s n cs vec = tfidf_entries s' n cs vec"
  by (induction s n cs vec rule: tfidf_entries.induct) (simp_all add: Let_def split: option.splits)

lemma build_vectors_ok:
  assumes "\<And>d toks. (d, toks) \<in> set docs
             \<Longrightarrow> tfidf_entries s (length toks) (Counter toks) [] = Inr (V toks)"
  shows "\<exists>s'. build_vectors docs s = Inr s'
           \<and> documents s' = documents s \<and> vocabulary s' = vocabulary s
           \<and> inverted_index s' = inverted_index s
           \<and> document_frequencies s' = document_frequencies s
           \<and> total_documents s' = total_documents s
           \<and> idx_preprocessor s' = idx_preprocessor s
           \<and> (\<forall>d. tfidf_vectors s' d
                    = (case map_of (rev docs) d of
                         Some toks \<Rightarrow> Some (V toks) | None \<Rightarrow> tfidf_vectors s d))
           \<and> (\<forall>d. document_norms s' d
                    = (case map_of (rev docs) d of
                         Some toks \<Rightarrow> Some (l2_norm (V toks)) | None \<Rightarrow> document_norms s d))"
  using assms
proof (induction docs arbitrary: s)
  case Nil
  then show ?case by simp
next
  case (Cons p docs)
  obtain d0 toks0 where p: "p = (d0, toks0)" by (cases p)
  let ?s2 = "s\<lparr>tfidf_vectors := (tfidf_vectors s)(d0 \<mapsto> V toks0),
                document_norms := (document_norms s)(d0 \<mapsto> l2_norm (V toks0))\<rparr>"
  have head: "tfidf_entries s (length toks0) (Counter toks0) [] = Inr (V toks0)"
    using Cons.prems [of d0 toks0] p by simp
  have rest: "tfidf_entries ?s2 (length toks) (Counter toks) [] = Inr (V toks)"
    if "(d, toks) \<in> set docs" for d toks
    using Cons.prems [of d toks] that tfidf_entries_cong [of ?s2 s] by simp
  have "\<exists>s'. build_vectors docs ?s2 = Inr s'
           \<and> documents s' = documents ?s2 \<and> vocabulary s' = vocabulary ?s2
           \<and> inverted_index s' = inverted_index ?s2
           \<and> document_frequencies s' = document_frequencies ?s2
           \<and> total_documents s' = total_documents ?s2
           \<and> idx_preprocessor s' = idx_preprocessor ?s2
           \<and> (\<forall>d. tfidf_vectors s' d
                    = (case map_of (rev docs) d of
                         Some toks \<Rightarrow> Some (V toks) | None \<Rightarrow> tfidf_vectors ?s2 d))
           \<and> (\<forall>d. document_norms s' d
                    = (case map_of (rev docs) d of
                         Some toks \<Rightarrow> Some (l2_norm (V toks)) | None \<Rightarrow> document_norms ?s2 d))"
    by (rule Cons.IH) (rule rest)
  then obtain s' where s':
    "build_vectors docs ?s2 = Inr s'"
    "documents s' = documents s" "vocabulary s' = vocabulary s"
    "inverted_index s' = inverted_index s"
    "document_frequencies s' = document_frequencies s"
    "total_documents s' = total_documents s"
    "idx_preprocessor s' = idx_preprocessor s"
    "\<And>d. tfidf_vectors s' d
          = (case map_of (rev docs) d of
               Some toks \<Rightarrow> Some (V toks) | None \<Rightarrow> tfidf_vectors ?s2 d)"
    "\<And>d. document_norms s' d
          = (case map_of (rev docs) d of
               Some toks \<Rightarrow> Some (l2_norm (V toks)) | None \<Rightarrow> document_norms ?s2 d)"
    by auto
  have "build_vectors (p # docs) s = Inr s'"
    using head s'(1) p by simp
  then show ?case
    using s'(2-7) p by (auto simp: s'(8,9) map_add_def split: option.splits)
qed

lemma spec_vector_Counter:
  assumes "\<And>t. t \<in> set toks \<Longrightarrow> w t = card (postings s t)"
  shows "map (\<lambda>(t, c). (t, real c / real (length toks)
                * ln (real (length (documents s)) / real (w t)))) (Counter toks)
           = spec_vector s toks"
  unfolding Counter_eq spec_vector_def map_map
  by (rule map_cong) (use assms in \<open>auto simp: spec_tfidf_def\<close>)

lemma build_index_ok:
  assumes inv: "index_inv s" and tot: "total_documents s = length (documents s)"
  shows "\<exists>s'. build_index s = Inr s'
           \<and> documents s' = documents s \<and> vocabulary s' = vocabulary s
           \<and> (\<forall>t. postings s' t = postings s t)
           \<and> total_documents s' = total_documents s
           \<and> idx_preprocessor s' = idx_preprocessor s
           \<and> (\<forall>t \<in> fst ` set (vocabulary s).
                  document_frequencies s' t = Some (card (postings s t)))
           \<and> (\<forall>d. tfidf_vectors s' d
                    = (case map_of (documents s) d of
                         Some toks \<Rightarrow> Some (spec_vector s toks) | None \<Rightarrow> tfidf_vectors s d))
           \<and> (\<forall>d. document_norms s' d
                    = (case map_of (documents s) d of
                         Some toks \<Rightarrow> Some (l2_norm (spec_vector s toks))
                       | None \<Rightarrow> document_norms s d))"
proof -
  define s1 where "s1 = count_frequencies (vocabulary s) s"
  have f1: "documents s1 = documents s" "vocabulary s1 = vocabulary s"
    "total_documents s1 = total_documents s" "idx_preprocessor s1 = idx_preprocessor s"
    "document_norms s1 = document_norms s" "tfidf_vectors s1 = tfidf_vectors s"
    by (simp_all add: s1_def count_frequencies_fields)
  have p1: "postings s1 t = postings s t" for t
    by (simp add: s1_def count_frequencies_postings)
  have df1: "document_frequencies s1 t = Some (card (postings s t))"
    if "t \<in> fst ` set (vocabulary s)" for t
    using that by (simp add: s1_def count_frequencies_df)
  have entries: "tfidf_entries s1 (length toks) (Counter toks) [] = Inr (spec_vector s toks)"
    if mem: "(d, toks) \<in> set (documents s)" for d toks
  proof (cases "toks = []")
    case True
    then show ?thesis by (simp add: Counter_def spec_vector_def)
  next
    case False
    have tok: "t \<in> fst ` set (vocabulary s) \<and> d \<in> postings s t" if "t \<in> set toks" for t
      using inv mem that unfolding index_inv_def by blast
    have fin: "finite (postings s t)" for t using inv unfolding index_inv_def by blast
    have card: "card (postings s t) \<noteq> 0" if "t \<in> set toks" for t
      using tok [OF that] fin [of t] by auto
    have keys: "fst ` set (Counter toks) = set toks"
      by (simp add: Counter_eq image_image)
    have dfs: "\<forall>(t, c) \<in> set (Counter toks).
                 \<exists>k. document_frequencies s1 t = Some k \<and> k \<noteq> 0"
    proof (clarify)
      fix t c assume "(t, c) \<in> set (Counter toks)"
      then have "t \<in> set toks" using keys by force
      then show "\<exists>k. document_frequencies s1 t = Some k \<and> k \<noteq> 0"
        using df1 tok card by auto
    qed
    have n0: "total_documents s1 \<noteq> 0"
      using mem tot by (auto simp: f1)
    have "tfidf_entries s1 (length toks) (Counter toks) []
            = Inr ([] @ map (\<lambda>(t, c). (t, real c / real (length toks)
                 * ln (real (total_documents s1) / real (the (document_frequencies s1 t)))))
                 (Counter toks))"
      by (rule tfidf_entries_ok)
         (use False dfs n0 in \<open>simp_all add: Counter_eq comp_def\<close>)
    also have "map (\<lambda>(t, c). (t, real c / real (length toks)
                 * ln (real (total_documents s1) / real (the (document_frequencies s1 t)))))
                 (Counter toks)
               = map (\<lambda>(t, c). (t, real c / real (length toks)
                 * ln (real (length (documents s))
                        / real (if t \<in> set toks then card (postings s t) else 0))))
                 (Counter toks)"
    proof (rule map_cong [OF refl])
      fix x assume x: "x \<in> set (Counter toks)"
      obtain t c where tc: "x = (t, c)" by (cases x)
      have t: "t \<in> set toks" using x keys tc by force
      have "document_frequencies s1 t = Some (card (postings s t))"
        using df1 tok [OF t] by simp
      then show "(case x of (t, c) \<Rightarrow> (t, real c / real (length toks)
                 * ln (real (total_documents s1) / real (the (document_frequencies s1 t)))))
               = (case x of (t, c) \<Rightarrow> (t, real c / real (length toks)
                 * ln (real (length (documents s))
                        / real (if t \<in> set toks then card (postings s t) else 0))))"
        using t by (simp add: tc f1 tot)
    qed
    also have "\<dots> = spec_vector s toks"
      by (rule spec_vector_Counter) simp
    finally show ?thesis by simp
  qed
  have dist: "distinct (map fst (documents s))" using inv unfolding index_inv_def by blast
  from build_vectors_ok [of "documents s1" s1 "spec_vector s"] entries
  obtain s' where s':
    "build_vectors (documents s1) s1 = Inr s'"
    "documents s' = documents s1" "vocabulary s' = vocabulary s1"
    "inverted_index s' = inverted_index s1"
    "document_frequencies s' = document_frequencies s1"
    "total_documents s' = total_documents s1"
    "idx_preprocessor s' = idx_preprocessor s1"
    "\<And>d. tfidf_vectors s' d
          = (case map_of (rev (documents s1)) d of
               Some toks \<Rightarrow> Some (spec_vector s toks) | None \<Rightarrow> tfidf_vectors s1 d)"
    "\<And>d. document_norms s' d
          = (case map_of (rev (documents s1)) d of
               Some toks \<Rightarrow> Some (l2_norm (spec_vector s toks)) | None \<Rightarrow> document_norms s1 d)"
    unfolding f1 by blast
  have rev: "map_of (rev (documents s)) = map_of (documents s)"
  proof -
    have "distinct (map fst (rev (documents s)))" using dist by (simp only: rev_map [symmetric] distinct_rev)
    then have "map_of (rev (documents s)) = map_of (documents s)"
      using dist by (subst map_of_inject_set) simp_all
    then show ?thesis .
  qed
  have post: "postings s' t = postings s t" for t
    using p1 [of t] s'(4) by (simp add: postings_def)
  have "build_index s = Inr s'"
    using s'(1) by (simp add: build_index_def s1_def Let_def)
  moreover have "document_frequencies s' t = Some (card (postings s t))"
    if "t \<in> fst ` set (vocabulary s)" for t
    using df1 [OF that] s'(5) by simp
  moreover have "tfidf_vectors s' d
                   = (case map_of (documents s) d of
                        Some toks \<Rightarrow> Some (spec_vector s toks) | None \<Rightarrow> tfidf_vectors s d)" for d
    by (simp add: s'(8) rev f1 split: option.splits)
  moreover have "document_norms s' d
                   = (case map_of (documents s) d of
                        Some toks \<Rightarrow> Some (l2_norm (spec_vector s toks))
                      | None \<Rightarrow> document_norms s d)" for d
    by (simp add: s'(9) rev f1 split: option.splits)
  ultimately show ?thesis
    using s'(2,3,6,7) post f1(1-4) by (intro exI [of _ s']) simp
qed

lemma index_inv_cong:
  assumes "index_inv s" "documents s' = documents s" "vocabulary s' = vocabulary s"
    and "\<And>t. postings s' t = postings s t"
  shows "index_inv s'"
  using assms unfolding index_inv_def by simp

lemma reachable_inv:
  "reachable s \<Longrightarrow> index_inv s \<and> total_documents s = length (documents s)"
proof (induction rule: reachable.induct)
  case (reachable_new pp)
  then show ?case by (simp add: new_indexer_inv) (simp add: new_indexer_def)
next
  case (reachable_add s docs)
  then show ?case by (simp add: add_documents_inv add_documents_total)
next
  case (reachable_build s s')
  then have inv: "index_inv s" and tot: "total_documents s = length (documents s)" by simp_all
  from build_index_ok [OF inv tot] reachable_build.hyps(2)
  have "documents s' = documents s" "vocabulary s' = vocabulary s"
    "\<And>t. postings s' t = postings s t" "total_documents s' = total_documents s"
    by auto
  then show ?case using inv tot by (auto intro: index_inv_cong)
qed

lemma two_documents_reachable: "reachable two_documents"
  unfolding two_documents_def by (intro reachable.intros)

lemma two_documents_documents:
  "documents two_documents = [(''d1'', []), (''d2'', [''machine'', ''learning''])]"
  unfolding two_documents_def by code_simp

lemma two_documents_tfidf:
  "spec_tfidf two_documents [''machine'', ''learning''] ''machine'' = 1 / 2 * ln 2"
  "spec_tfidf two_documents [''machine'', ''learning''] ''learning'' = 1 / 2 * ln 2"
proof -
  have "postings two_documents ''machine'' = {''d2''}" "postings two_documents ''learning'' = {''d2''}"
    "length (documents two_documents) = 2"
    unfolding two_documents_def by code_simp+
  then show "spec_tfidf two_documents [''machine'', ''learning''] ''machine'' = 1 / 2 * ln 2"
    "spec_tfidf two_documents [''machine'', ''learning''] ''learning'' = 1 / 2 * ln 2"
    by (simp_all add: spec_tfidf_def)
qed

lemma l2_norm_spec_vector:
  "l2_norm (spec_vector s tokens)
     = sqrt (\<Sum>t\<leftarrow>rev (remdups (rev tokens)). (spec_tfidf s tokens t)\<^sup>2)"
  by (simp add: l2_norm_def spec_vector_def comp_def)

text \<open>
  In a reachable state every weight lies between 0 and the logarithm of the
  number of documents, so the squares that \<^verbatim>\<open>build_index\<close> sums for the norm
  are far from the range limit of a double.
\<close>

lemma spec_tfidf_bounds:
  assumes "reachable s" "map_of (documents s) d = Some tokens" "t \<in> set tokens"
  shows "0 \<le> spec_tfidf s tokens t \<and> spec_tfidf s tokens t \<le> ln (real (length (documents s)))"
proof -
  let ?n = "length (documents s)" and ?df = "card (postings s t)"
  have inv: "index_inv s" using reachable_inv [OF assms(1)] by simp
  have mem: "(d, tokens) \<in> set (documents s)" using assms(2) by (rule map_of_SomeD)
  have fin: "finite (postings s t)" and sub: "postings s t \<subseteq> fst ` set (documents s)"
    and dist: "distinct (map fst (documents s))" and din: "d \<in> postings s t"
    using inv mem assms(3) unfolding index_inv_def by blast+
  have df1: "1 \<le> ?df" using fin din by (metis One_nat_def Suc_leI card_gt_0_iff empty_iff)
  have "?df \<le> card (fst ` set (documents s))" using sub by (intro card_mono) simp_all
  also have "\<dots> = ?n" using dist by (metis distinct_card length_map set_map)
  finally have dfn: "?df \<le> ?n" .
  have ratio1: "1 \<le> real ?n / real ?df" using df1 dfn by simp
  have "real ?n / real ?df \<le> real ?n / 1"
    using df1 by (intro divide_left_mono) simp_all
  then have ration: "real ?n / real ?df \<le> real ?n" by simp
  have idf0: "0 \<le> ln (real ?n / real ?df)" using ratio1 by simp
  have idfn: "ln (real ?n / real ?df) \<le> ln (real ?n)"
    using ratio1 ration by (intro ln_mono) linarith+
  have len: "0 < length tokens" using assms(3) by (cases tokens) auto
  have "count_list tokens t \<le> length tokens" by (rule count_le_length)
  then have tf1: "real (count_list tokens t) / real (length tokens) \<le> 1" using len by simp
  have tf0: "0 \<le> real (count_list tokens t) / real (length tokens)" by simp
  have "spec_tfidf s tokens t \<le> 1 * ln (real ?n)"
    unfolding spec_tfidf_def using tf0 tf1 idf0 idfn by (intro mult_mono) simp_all
  moreover have "0 \<le> spec_tfidf s tokens t"
    unfolding spec_tfidf_def using tf0 idf0 by (intro mult_nonneg_nonneg)
  ultimately show ?thesis by simp
qed

lemma spec_vector_entry:
  "map_of (spec_vector s tokens) t
     = (if t \<in> set tokens then Some (spec_tfidf s tokens t) else None)"
  by (simp add: spec_vector_def map_of_graph)

text \<open>
  C5. On every reachable state \<^const>\<open>build_index\<close> returns, and for each
  stored document it stores the vector \<^const>\<open>spec_vector\<close> of the
  specification (tf = occurrences / token count, idf = ln (documents / postings
  of the term), one entry tf * idf per term of the document) together with the
  square root of the sum of the squares of these entries, the L2 norm of the
  vector. The stored values are a function of the stored token sequences and of
  the inverted index alone.
\<close>

theorem build_index_tfidf:
  assumes "reachable s"
  shows "\<exists>s'. build_index s = Inr s'
           \<and> (\<forall>d tokens. map_of (documents s) d = Some tokens \<longrightarrow>
                  tfidf_vectors s' d = Some (spec_vector s tokens)
                  \<and> document_norms s' d
                      = Some (sqrt (\<Sum>t\<leftarrow>rev (remdups (rev tokens)).
                                      (spec_tfidf s tokens t)\<^sup>2)))"
proof -
  from reachable_inv [OF assms]
  have inv: "index_inv s" and tot: "total_documents s = length (documents s)" by simp_all
  from build_index_ok [OF inv tot] show ?thesis
    unfolding l2_norm_spec_vector by force
qed

theorem build_index_tfidf_witness:
  "reachable two_documents
   \<and> map_of (documents two_documents) ''d2'' = Some [''machine'', ''learning'']
   \<and> (\<exists>s'. build_index two_documents = Inr s'
          \<and> tfidf_vectors s' ''d2''
                = Some [(''machine'', 1 / 2 * ln 2), (''learning'', 1 / 2 * ln 2)]
          \<and> document_norms s' ''d2''
                = Some (sqrt ((1 / 2 * ln 2)\<^sup>2 + (1 / 2 * ln 2)\<^sup>2)))"
proof -
  have m: "map_of (documents two_documents) ''d2'' = Some [''machine'', ''learning'']"
    by (simp add: two_documents_documents)
  from build_index_tfidf [OF two_documents_reachable] m two_documents_reachable
  show ?thesis by (auto simp: spec_vector_def two_documents_tfidf)
qed

text \<open>
  C10. On every reachable state \<^const>\<open>build_index\<close> returns (no division by
  zero, no missing key), also when a stored document has no tokens: the term
  counter of such a document is empty, so the loop over its terms does nothing,
  and the document gets the empty vector and the norm 0.
\<close>

theorem build_index_empty_tokens:
  assumes "reachable s"
  shows "\<exists>s'. build_index s = Inr s'
           \<and> (\<forall>d. map_of (documents s) d = Some [] \<longrightarrow>
                  Counter ([] :: string list) = []
                  \<and> tfidf_vectors s' d = Some [] \<and> document_norms s' d = Some 0)"
proof -
  from reachable_inv [OF assms]
  have inv: "index_inv s" and tot: "total_documents s = length (documents s)" by simp_all
  from build_index_ok [OF inv tot] show ?thesis
    by (force simp: spec_vector_def l2_norm_def Counter_def)
qed

theorem build_index_empty_tokens_witness:
  "reachable two_documents
   \<and> map_of (documents two_documents) ''d1'' = Some []
   \<and> (\<exists>s'. build_index two_documents = Inr s'
          \<and> tfidf_vectors s' ''d1'' = Some [] \<and> document_norms s' ''d1'' = Some 0)"
proof -
  have m: "map_of (documents two_documents) ''d1'' = Some []"
    by (simp add: two_documents_documents)
  from build_index_empty_tokens [OF two_documents_reachable] m two_documents_reachable
  show ?thesis by auto
qed

text \<open>
  One half of the invariant of the inverted index holds in every reachable
  state: a document is among the postings of each term of its stored tokens.
\<close>

lemma postings_complete:
  assumes "reachable s" "map_of (documents s) d = Some tokens" "t \<in> set tokens"
  shows "d \<in> postings s t"
proof -
  have "(d, tokens) \<in> set (documents s)" using assms(2) by (rule map_of_SomeD)
  then show ?thesis
    using reachable_inv [OF assms(1)] assms(3) unfolding index_inv_def by blast
qed

text \<open>
  C6 (a document id is in the entry of a term iff the term occurs in the
  document's stored tokens, also after re-ingestion). Ingesting \<^verbatim>\<open>d1\<close> with the
  text \<^verbatim>\<open>alpha beta\<close> and then again with the text \<^verbatim>\<open>gamma\<close> leaves \<^verbatim>\<open>d1\<close> in
  the entry of \<^verbatim>\<open>alpha\<close>, although its stored tokens are now \<^verbatim>\<open>gamma\<close> alone;
  \<^const>\<open>get_candidate_documents\<close> then returns \<^verbatim>\<open>d1\<close> for the term \<^verbatim>\<open>alpha\<close>.
\<close>

theorem reingest_leaves_stale_posting:
  "map_of (documents reingested) ''d1'' = Some [''gamma'']
   \<and> ''d1'' \<in> postings reingested ''alpha''
   \<and> get_candidate_documents reingested [''alpha''] = {''d1''}"
  unfolding reingested_def by code_simp

section \<open>The engine\<close>

lemma search_returns: "\<exists>r. search set_order e q = Returned r"
  by (cases "search_body set_order e q") (simp_all add: search_def)

lemma lookup_all_keys:
  "lookup_all table ks acc = Inr xs \<Longrightarrow> fst ` set xs \<subseteq> dom table \<union> fst ` set acc"
proof (induction ks arbitrary: acc)
  case Nil
  then show ?case by auto
next
  case (Cons k ks)
  from Cons.prems obtain v where v: "table k = Some v"
    and rest: "lookup_all table ks (AList.update k v acc) = Inr xs"
    by (auto split: option.splits)
  from Cons.IH [OF rest] v show ?case
    by (auto simp: keys_update)
qed

lemma batch_keys:
  "batch_calculate_similarities qv cvs norms = Inr sims \<Longrightarrow> fst ` set sims \<subseteq> fst ` set cvs"
proof (induction cvs arbitrary: sims)
  case Nil
  then show ?case by simp
next
  case (Cons p cvs)
  obtain d v where p: "p = (d, v)" by (cases p)
  from Cons.prems p obtain rest where
    rest: "batch_calculate_similarities qv cvs norms = Inr rest"
    by (auto simp: Let_def split: sum.splits)
  from Cons.prems p rest have "fst ` set sims \<subseteq> insert d (fst ` set rest)"
    by (auto simp: Let_def split: sum.splits if_splits)
  then show ?case using Cons.IH [OF rest] p by auto
qed

lemma rank_results_ids:
  "doc_id ` set (results (rank_results rk sims store)) \<subseteq> fst ` set sims"
proof -
  let ?top = "slice_to (max_results rk)
                (sort_by_score_desc (filter (\<lambda>(d, s). min_similarity_score rk \<le> s) sims))"
  have "map fst (map (\<lambda>h. (doc_id h, similarity_score h)) (results (rank_results rk sims store)))
          = map fst (map (\<lambda>(d, s). (d, round4 s)) ?top)"
    by (simp add: rank_results_def Let_def format_results_ids)
  then have "map doc_id (results (rank_results rk sims store)) = map fst ?top"
    by (simp add: comp_def case_prod_unfold)
  then have "doc_id ` set (results (rank_results rk sims store)) = fst ` set ?top"
    by (metis set_map)
  moreover have "set ?top \<subseteq> set sims"
    by (auto simp: slice_to_def sort_by_score_desc_def dest!: in_set_takeD)
  ultimately show ?thesis by auto
qed

lemma search_body_ids:
  assumes "search_body set_order e q = Inr r"
  shows "doc_id ` set (sr_results r) \<subseteq> dom (tfidf_vectors (eng_indexer e))"
proof (cases "sr_results r = []")
  case True
  then show ?thesis by simp
next
  case False
  from assms False obtain ks cv cn qv sims where
    cv: "lookup_all (tfidf_vectors (eng_indexer e)) ks [] = Inr cv" and
    sims: "batch_calculate_similarities qv cv cn = Inr sims" and
    res: "sr_results r = results (rank_results (eng_ranker e) sims (Some (eng_store e)))"
    by (auto simp: search_body_def Let_def no_results_def split: if_splits sum.splits; blast)
  have "doc_id ` set (sr_results r) \<subseteq> fst ` set sims"
    unfolding res by (rule rank_results_ids)
  also have "\<dots> \<subseteq> fst ` set cv" by (rule batch_keys [OF sims])
  also have "\<dots> \<subseteq> dom (tfidf_vectors (eng_indexer e))"
    using lookup_all_keys [OF cv] by simp
  finally show ?thesis .
qed

lemma search_ids:
  assumes "search set_order e q = Returned r"
  shows "doc_id ` set (sr_results r) \<subseteq> dom (tfidf_vectors (eng_indexer e))"
proof (cases "search_body set_order e q")
  case (Inl err)
  then show ?thesis using assms by (auto simp: search_def no_results_def)
next
  case (Inr r')
  then show ?thesis using assms search_body_ids [of set_order e q r'] by (simp add: search_def)
qed

lemma candidates_postings:
  "d \<in> get_candidate_documents s terms \<Longrightarrow> \<exists>t \<in> set terms. d \<in> postings s t"
proof (induction terms)
  case Nil
  then show ?case by simp
next
  case (Cons t terms)
  show ?case
  proof (cases "d \<in> postings s t")
    case True
    then show ?thesis by simp
  next
    case False
    then have "d \<in> get_candidate_documents s terms"
      using Cons.prems by (auto simp: postings_def split: option.splits)
    then show ?thesis using Cons.IH by auto
  qed
qed

lemma add_each_fields:
  "idx_preprocessor (add_each docs s) = idx_preprocessor s"
  "document_frequencies (add_each docs s) = document_frequencies s"
  "document_norms (add_each docs s) = document_norms s"
  "tfidf_vectors (add_each docs s) = tfidf_vectors s"
  by (induction docs s rule: add_each.induct) (simp_all add: Let_def add_terms_fields)

lemma add_each_keys:
  "fst ` set (documents (add_each docs s)) = fst ` set (documents s) \<union> fst ` set docs"
  by (induction docs s rule: add_each.induct)
     (auto simp: Let_def add_terms_fields keys_update)

lemma add_documents_keys:
  "fst ` set (documents (add_documents docs s)) = fst ` set (documents s) \<union> fst ` set docs"
  by (simp add: add_documents_def Let_def add_each_keys)

lemma add_documents_vectors:
  "tfidf_vectors (add_documents docs s) = tfidf_vectors s"
  by (simp add: add_documents_def Let_def add_each_fields)

text \<open>The index that \<open>remove_document\<close> rebuilds knows only the documents it was given.\<close>

lemma rebuilt_index:
  assumes "build_index (add_documents docs (new_indexer pp)) = Inr s'"
  shows "(\<forall>t. postings s' t \<subseteq> fst ` set docs) \<and> dom (tfidf_vectors s') \<subseteq> fst ` set docs"
proof -
  let ?s = "add_documents docs (new_indexer pp)"
  have r: "reachable ?s" by (intro reachable.intros)
  from reachable_inv [OF r]
  have inv: "index_inv ?s" and tot: "total_documents ?s = length (documents ?s)" by simp_all
  have keys: "fst ` set (documents ?s) = fst ` set docs"
    by (simp add: add_documents_keys new_indexer_def)
  from build_index_ok [OF inv tot] assms
  have post: "\<And>t. postings s' t = postings ?s t"
    and vec: "\<And>d. tfidf_vectors s' d
                 = (case map_of (documents ?s) d of
                      Some toks \<Rightarrow> Some (spec_vector ?s toks) | None \<Rightarrow> tfidf_vectors ?s d)"
    by auto
  have "postings s' t \<subseteq> fst ` set docs" for t
    using inv keys unfolding post index_inv_def by auto
  moreover have "dom (tfidf_vectors s') \<subseteq> fst ` set docs"
  proof
    fix d assume "d \<in> dom (tfidf_vectors s')"
    then have "map_of (documents ?s) d \<noteq> None"
      unfolding vec by (auto simp: add_documents_vectors new_indexer_def split: option.splits)
    then have "d \<in> fst ` set (documents ?s)" by (simp add: map_of_eq_None_iff)
    then show "d \<in> fst ` set docs" using keys by simp
  qed
  ultimately show ?thesis by blast
qed

lemma build_index_reachable: "reachable s \<Longrightarrow> \<exists>s'. build_index s = Inr s' \<and> vocabulary s' = vocabulary s"
  using build_index_ok [of s] reachable_inv [of s] by blast

lemma query_entries_no_vocabulary:
  "\<forall>(t, c) \<in> set cs. map_of (vocabulary s) t = None \<Longrightarrow> query_entries s n cs vec = Inr vec"
  by (induction cs) auto

lemma Counter_keys: "fst ` set (Counter tokens) = set tokens"
  by (simp add: Counter_eq image_image)

lemma get_query_vector_miss:
  assumes "\<forall>t \<in> set terms. map_of (vocabulary s) t = None"
  shows "get_query_vector s terms = Inr []"
proof -
  have "\<forall>(t, c) \<in> set (Counter terms). map_of (vocabulary s) t = None"
    using assms Counter_keys [of terms] by force
  then show ?thesis by (simp add: get_query_vector_def query_entries_no_vocabulary)
qed

lemma search_vocabulary_miss:
  assumes "validate_query (process_query (eng_preprocessor e) q)"
    and "\<forall>t \<in> set (process_query (eng_preprocessor e) q). map_of (vocabulary (eng_indexer e)) t = None"
  shows "search set_order e q
           = Returned (no_results (QError ''No matching terms found in vocabulary''))"
  using assms by (simp add: search_def search_body_def Let_def get_query_vector_miss)

lemma scenario_a_vocabulary:
  "map_of (vocabulary (add_documents scenario_a (new_indexer default_preprocessor)))
     ''machinelearning'' = None"
  "map_of (vocabulary (add_documents scenario_a (new_indexer default_preprocessor)))
     ''hello'' = None"
  unfolding scenario_a_def by code_simp+

lemma machinelearning_valid: "validate_query [''machinelearning'']"
  by code_simp

lemma hello_terms: "process_query default_preprocessor ''hello'' = [''hello'']"
  by code_simp

lemma hello_valid: "validate_query [''hello'']"
  by code_simp

text \<open>
  C8. When \<^const>\<open>remove_document\<close> returns \<^verbatim>\<open>True\<close> (so the rebuild inside it has
  completed), the removed id is in no candidate set of the new index, whatever
  the query terms, and in no result list of \<^const>\<open>search\<close>, whatever the query
  and whatever the order in which the candidates are iterated.
\<close>

theorem removed_document_never_returned:
  assumes "remove_document fs_ok e d = Inr (True, e')"
  shows "d \<notin> get_candidate_documents (eng_indexer e') terms
         \<and> (\<forall>r. search set_order e' q = Returned r \<longrightarrow> d \<notin> doc_id ` set (sr_results r))"
proof -
  obtain st where st: "store_remove_document fs_ok d (eng_store e) = (True, st)"
    using assms by (auto simp: remove_document_def Let_def split: prod.splits if_splits sum.splits)
  have gone: "d \<notin> fst ` set (store_documents st)"
  proof -
    have "store_documents st = AList.delete d (store_documents (eng_store e))"
      using st by (auto simp: store_remove_document_def Let_def split: if_splits)
    then show ?thesis by (simp add: delete_notin_dom)
  qed
  have idx: "(\<forall>t. postings (eng_indexer e') t \<subseteq> fst ` set (store_documents st))
             \<and> dom (tfidf_vectors (eng_indexer e')) \<subseteq> fst ` set (store_documents st)"
  proof (cases "store_documents st = []")
    case True
    then have "eng_indexer e' = new_indexer (eng_preprocessor e)"
      using assms st by (auto simp: remove_document_def Let_def get_all_documents_def)
    then show ?thesis by (simp add: new_indexer_def postings_def)
  next
    case False
    then have "build_index (add_documents (store_documents st) (new_indexer (eng_preprocessor e)))
                 = Inr (eng_indexer e')"
      using assms st
      by (auto simp: remove_document_def Let_def get_all_documents_def engine_build_index_def
               split: sum.splits)
    then show ?thesis by (rule rebuilt_index)
  qed
  have "d \<notin> get_candidate_documents (eng_indexer e') terms"
    using candidates_postings [of d "eng_indexer e'" terms] idx gone by auto
  moreover have "d \<notin> doc_id ` set (sr_results r)" if "search set_order e' q = Returned r" for r
  proof
    assume "d \<in> doc_id ` set (sr_results r)"
    then have "d \<in> dom (tfidf_vectors (eng_indexer e'))"
      using search_ids [OF that] by (rule rev_subsetD)
    then have "d \<in> fst ` set (store_documents st)" using idx by blast
    then show False using gone by simp
  qed
  ultimately show ?thesis by blast
qed

lemma two_docs_store:
  "store_remove_document True ''d1'' (eng_store two_docs_engine)
     = (True, \<lparr>store_documents = [(''d2'', ''beta gamma'')], store_metadata = {''d2''}\<rparr>)"
  by (simp add: two_docs_engine_def engine_add_documents_def init_engine_def empty_store_def
        store_add_document_def store_remove_document_def Let_def insert_Diff_if)

theorem removed_document_never_returned_witness:
  "\<exists>e'. remove_document True two_docs_engine ''d1'' = Inr (True, e')
        \<and> ''d1'' \<notin> get_candidate_documents (eng_indexer e') [''beta'']
        \<and> (\<exists>r. search sorted_list_of_set e' ''beta'' = Returned r
                 \<and> ''d1'' \<notin> doc_id ` set (sr_results r))"
proof -
  let ?s = "add_documents [(''d2'', ''beta gamma'')] (new_indexer default_preprocessor)"
  have "reachable ?s" by (intro reachable.intros)
  then obtain s' where s': "build_index ?s = Inr s'"
    using build_index_reachable by blast
  have pp: "eng_preprocessor two_docs_engine = default_preprocessor"
    by (simp add: two_docs_engine_def engine_add_documents_def init_engine_def)
  obtain e' where e': "remove_document True two_docs_engine ''d1'' = Inr (True, e')"
    using s' by (simp add: remove_document_def two_docs_store get_all_documents_def
          engine_build_index_def pp)
  obtain r where r: "search sorted_list_of_set e' ''beta'' = Returned r"
    using search_returns by blast
  from removed_document_never_returned [OF e', of "[''beta'']" sorted_list_of_set "''beta''"] e' r
  show ?thesis by blast
qed

text \<open>
  C1 (Scenario A: the query \<^verbatim>\<open>machine learning\<close> has \<^verbatim>\<open>d1\<close> and \<^verbatim>\<open>d2\<close> as
  candidates and ranks \<^verbatim>\<open>d1\<close> first). On the corpus of the scenario, added and
  built, \<^const>\<open>search\<close> answers the query with no result at all and the error
  \<^verbatim>\<open>No matching terms found in vocabulary\<close>: the query has become the single
  term \<^verbatim>\<open>machinelearning\<close>.
\<close>

theorem scenario_a_search_finds_nothing:
  "\<exists>e. engine_build_index (engine_add_documents True scenario_a init_engine) = Inr e
       \<and> search set_order e ''machine learning''
           = Returned (no_results (QError ''No matching terms found in vocabulary''))"
proof -
  let ?s = "add_documents scenario_a (new_indexer default_preprocessor)"
  have "reachable ?s" by (intro reachable.intros)
  then obtain s' where s': "build_index ?s = Inr s'" "vocabulary s' = vocabulary ?s"
    using build_index_reachable by blast
  let ?e = "(engine_add_documents True scenario_a init_engine)\<lparr>eng_indexer := s'\<rparr>"
  have built: "engine_build_index (engine_add_documents True scenario_a init_engine) = Inr ?e"
    using s'(1) by (simp add: engine_build_index_def engine_add_documents_def init_engine_def)
  have pp: "eng_preprocessor ?e = default_preprocessor"
    by (simp add: engine_add_documents_def init_engine_def)
  have miss: "map_of (vocabulary s') ''machinelearning'' = None"
    unfolding s'(2) by (rule scenario_a_vocabulary)
  have "search set_order ?e ''machine learning''
          = Returned (no_results (QError ''No matching terms found in vocabulary''))"
    by (rule search_vocabulary_miss)
       (simp_all add: pp machine_learning_terms machinelearning_valid miss)
  with built show ?thesis by blast
qed

lemma empty_corpus_vocabulary:
  assumes "reachable s" "documents s = []"
  shows "vocabulary s = []"
  using reachable_inv [OF assms(1)] assms(2) unfolding index_inv_def by blast

text \<open>
  C7, as amended. \<^const>\<open>search\<close> always returns a value: an exception of the
  body becomes the payload \<^verbatim>\<open>Search error: ...\<close>. An invalid or empty query, a
  query whose terms are all missing from the vocabulary, and a query without
  candidate documents each give zero results and a payload of their own, and the
  three payloads differ. On an empty corpus every query gives the payload of
  the invalid query or of the vocabulary miss.
\<close>

theorem search_outcomes:
  "\<exists>r. search set_order e q = Returned r
     \<and> (\<forall>err. search_body set_order e q = Inl err \<longrightarrow>
            r = no_results (QError (''Search error: '' @ error_str err)))
     \<and> (\<not> validate_query (process_query (eng_preprocessor e) q) \<longrightarrow>
            r = no_results (QError ''Invalid or empty query''))
     \<and> (validate_query (process_query (eng_preprocessor e) q)
          \<and> get_query_vector (eng_indexer e) (process_query (eng_preprocessor e) q) = Inr [] \<longrightarrow>
            r = no_results (QError ''No matching terms found in vocabulary''))
     \<and> (validate_query (process_query (eng_preprocessor e) q)
          \<and> (\<exists>qv. get_query_vector (eng_indexer e) (process_query (eng_preprocessor e) q) = Inr qv
                   \<and> qv \<noteq> [])
          \<and> get_candidate_documents (eng_indexer e) (process_query (eng_preprocessor e) q) = {} \<longrightarrow>
            r = no_results (QMessage ''No documents contain the query terms''))
     \<and> (reachable (eng_indexer e) \<and> documents (eng_indexer e) = [] \<longrightarrow>
            r = no_results (QError ''Invalid or empty query'')
            \<or> r = no_results (QError ''No matching terms found in vocabulary''))
     \<and> distinct [no_results (QError ''Invalid or empty query''),
                   no_results (QError ''No matching terms found in vocabulary''),
                   no_results (QMessage ''No documents contain the query terms'')]"
proof -
  let ?terms = "process_query (eng_preprocessor e) q"
  obtain r where r: "search set_order e q = Returned r"
    using search_returns by blast
  have a: "r = no_results (QError (''Search error: '' @ error_str err))"
    if "search_body set_order e q = Inl err" for err
    using r that by (simp add: search_def)
  have b: "r = no_results (QError ''Invalid or empty query'')" if "\<not> validate_query ?terms"
    using r that by (simp add: search_def search_body_def Let_def)
  have c: "r = no_results (QError ''No matching terms found in vocabulary'')"
    if "validate_query ?terms" "get_query_vector (eng_indexer e) ?terms = Inr []"
    using r that by (simp add: search_def search_body_def Let_def)
  have d: "r = no_results (QMessage ''No documents contain the query terms'')"
    if "validate_query ?terms" "get_query_vector (eng_indexer e) ?terms = Inr qv" "qv \<noteq> []"
       "get_candidate_documents (eng_indexer e) ?terms = {}" for qv
    using r that by (simp add: search_def search_body_def Let_def)
  have f: "r = no_results (QError ''Invalid or empty query'')
           \<or> r = no_results (QError ''No matching terms found in vocabulary'')"
    if "reachable (eng_indexer e)" "documents (eng_indexer e) = []"
  proof (cases "validate_query ?terms")
    case True
    have "vocabulary (eng_indexer e) = []" using that by (rule empty_corpus_vocabulary)
    then have "get_query_vector (eng_indexer e) ?terms = Inr []"
      by (intro get_query_vector_miss) simp
    with c True show ?thesis by simp
  next
    case False
    with b show ?thesis by simp
  qed
  have g: "distinct [no_results (QError ''Invalid or empty query''),
                   no_results (QError ''No matching terms found in vocabulary''),
                   no_results (QMessage ''No documents contain the query terms'')]"
    by (simp add: no_results_def)
  show ?thesis
    using r a b c d f g by (intro exI [of _ r]) blast
qed

theorem search_outcomes_witness:
  "reachable (eng_indexer init_engine) \<and> documents (eng_indexer init_engine) = []
   \<and> validate_query (process_query (eng_preprocessor init_engine) ''hello'')
   \<and> search sorted_list_of_set init_engine ''hello''
       = Returned (no_results (QError ''No matching terms found in vocabulary''))"
proof -
  have h1: "reachable (eng_indexer init_engine)"
    by (simp add: init_engine_def reachable.intros)
  have h2: "documents (eng_indexer init_engine) = []"
    by (simp add: init_engine_def new_indexer_def)
  have h3: "validate_query (process_query (eng_preprocessor init_engine) ''hello'')"
    by (simp add: init_engine_def hello_terms hello_valid)
  have h4: "get_query_vector (eng_indexer init_engine)
              (process_query (eng_preprocessor init_engine) ''hello'') = Inr []"
    by (rule get_query_vector_miss) (simp add: init_engine_def new_indexer_def)
  from search_outcomes [of sorted_list_of_set init_engine "''hello''"] h1 h2 h3 h4
  show ?thesis by auto
qed

text \<open>
  C7 as stated fails: on the empty corpus the query \<^verbatim>\<open>hello\<close> gets the payload
  of a vocabulary miss, the same that it gets on the corpus of Scenario A, and
  the answer has no \<^verbatim>\<open>total_candidates\<close> entry.
\<close>

theorem empty_corpus_same_as_vocabulary_miss:
  "search sorted_list_of_set init_engine ''hello''
     = Returned (no_results (QError ''No matching terms found in vocabulary''))
   \<and> search sorted_list_of_set (engine_add_documents True scenario_a init_engine) ''hello''
     = Returned (no_results (QError ''No matching terms found in vocabulary''))
   \<and> sr_total_candidates (no_results (QError ''No matching terms found in vocabulary'')) = None"
proof -
  have "search sorted_list_of_set init_engine ''hello''
          = Returned (no_results (QError ''No matching terms found in vocabulary''))"
    by (rule search_vocabulary_miss)
       (simp_all add: init_engine_def hello_terms hello_valid new_indexer_def)
  moreover have "search sorted_list_of_set (engine_add_documents True scenario_a init_engine) ''hello''
          = Returned (no_results (QError ''No matching terms found in vocabulary''))"
    by (rule search_vocabulary_miss)
       (simp_all add: engine_add_documents_def init_engine_def hello_terms hello_valid
          scenario_a_vocabulary)
  ultimately show ?thesis by (simp add: no_results_def)
qed

end
